theory Spec2Isabelle
  imports Main "HOL-Library.Word"
begin

unbundle bit_operations_syntax

section \<open>Data model of \<open>DeviceImpl\<close> (src/device\_impl.cpp)\<close>

text \<open>
  One \<open>DeviceImpl\<close> object is one remote endpoint. Its fields become a record that every
  member function takes and returns. What the object hands to its collaborators (messages
  given to the parent's \<open>send_message\<close>, the parent's notifications, invocations of user
  callbacks, lines written to \<open>Debug()\<close>) is appended to the field \<open>trace\<close>, oldest first.

  Owner tokens (\<open>const void *cookie\<close>) are addresses, hence numbers. A callable
  (\<open>std::function\<close>) is identified by a number; \<open>None\<close> is the empty callable (\<open>nullptr\<close>).
  Time points of the steady clock and durations are integers in microseconds; the field
  \<open>timeout_us\<close> is the source's \<open>_timeout_s\<close> and \<open>heartbeat_timeout_us\<close> its
  \<open>_heartbeat_timeout_s\<close>, both expressed in microseconds.
\<close>

type_synonym cookie = nat
type_synonym callback_id = nat
type_synonym dl_time = int

datatype CommandState = NONE | WAITING | RECEIVED

datatype CommandResult =
  SUCCESS | NO_DEVICE | CONNECTION_ERROR | BUSY | COMMAND_DENIED | TIMEOUT

text \<open>The \<open>MAV_RESULT\<close> codes and command numbers of the protocol headers that the file uses.\<close>

definition MAV_RESULT_ACCEPTED :: "8 word" where
  "MAV_RESULT_ACCEPTED = 0"

definition MAV_RESULT_DENIED :: "8 word" where
  "MAV_RESULT_DENIED = 2"

definition MAV_RESULT_FAILED :: "8 word" where
  "MAV_RESULT_FAILED = 4"

definition MAV_PROTOCOL_CAPABILITY_MISSION_INT :: "64 word" where
  "MAV_PROTOCOL_CAPABILITY_MISSION_INT = 4"

definition MAV_CMD_REQUEST_AUTOPILOT_CAPABILITIES :: "16 word" where
  "MAV_CMD_REQUEST_AUTOPILOT_CAPABILITIES = 520"

text \<open>
  A command carries seven float parameters. Their values play no role in the protocol
  engine; the only ones the file itself builds are \<open>1.0f\<close> and \<open>NAN\<close>.
\<close>

datatype mav_float = Float_of_int int | NAN

type_synonym CommandParams = "mav_float list"

text \<open>
  Outbound messages, as packed by \<open>mavlink_msg_heartbeat_pack\<close> and
  \<open>mavlink_msg_command_long_pack\<close>: a command message records the target system id, the
  target component id, the command number and the parameters (the sender ids are constants
  of the build and the confirmation field is always 0).
\<close>

datatype outbound =
  HEARTBEAT_OUT
| COMMAND_LONG "8 word" "8 word" "16 word" CommandParams

datatype event =
  Sent outbound
| Notify_on_discover "64 word"
| Notify_on_timeout "64 word"
| Report callback_id CommandResult
| Timeout_fired callback_id
| Debug string

record TimeoutHandlerMapEntry =
  time :: dl_time
  callback :: "callback_id option"

text \<open>
  Modelled from the spec: the declaration of \<open>_timeout_handler_map\<close> is in a header that is
  not part of the file. The spec describes a registry that maps an owner token to a single
  pending deadline and callback, with at most one entry per owner token: a \<open>std::map\<close> from
  cookie to entry. Such a map has unique keys and is iterated in key order, so it is an
  association list whose keys increase strictly.
\<close>

type_synonym timeout_handler_map = "(cookie \<times> TimeoutHandlerMapEntry) list"

record DeviceImpl =
  timeout_handler_map :: timeout_handler_map
  target_system_id :: "8 word"
  target_component_id :: "8 word"
  target_uuid :: "64 word"
  target_supports_mission_int :: bool
  command_result :: "8 word"
  command_state :: CommandState
  command_result_callback :: "callback_id option"
  device_thread :: bool
  should_exit :: bool
  timeout_us :: nat
  last_heartbeat_received_time :: dl_time
  heartbeat_timeout_us :: int
  heartbeat_timed_out :: bool
  trace :: "event list"

text \<open>
  The constructor. \<open>DEFAULT_TIMEOUT_S\<close> and \<open>DEFAULT_HEARTBEAT_TIMEOUT_S\<close> are constants of
  a header that is not part of the file, so they are parameters. A default-constructed time
  point is the clock's epoch.
\<close>

definition DeviceImpl_new :: "nat \<Rightarrow> int \<Rightarrow> DeviceImpl" where
  "DeviceImpl_new default_timeout_us default_heartbeat_timeout_us =
     \<lparr> timeout_handler_map = [],
       target_system_id = 0,
       target_component_id = 0,
       target_uuid = 0,
       target_supports_mission_int = False,
       command_result = MAV_RESULT_FAILED,
       command_state = NONE,
       command_result_callback = None,
       device_thread = False,
       should_exit = False,
       timeout_us = default_timeout_us,
       last_heartbeat_received_time = 0,
       heartbeat_timeout_us = default_heartbeat_timeout_us,
       heartbeat_timed_out = False,
       trace = [] \<rparr>"

definition emit :: "event \<Rightarrow> DeviceImpl \<Rightarrow> DeviceImpl" where
  "emit e s = s\<lparr>trace := trace s @ [e]\<rparr>"


section \<open>Timeout registry\<close>

text \<open>
  Modelled from the spec: \<open>steady_time_in_future\<close> is a helper of a header that is not part
  of the file; the spec gives \<open>deadline = now + duration\<close>.
\<close>

definition steady_time_in_future :: "dl_time \<Rightarrow> nat \<Rightarrow> dl_time" where
  "steady_time_in_future now duration_us = now + int duration_us"

text \<open>\<open>std::map::insert\<close>: the pair is added at its place in key order unless the key is
  already present, in which case the map is left as it is.\<close>

fun map_insert :: "cookie \<Rightarrow> TimeoutHandlerMapEntry \<Rightarrow> timeout_handler_map \<Rightarrow> timeout_handler_map" where
  "map_insert k v [] = [(k, v)]"
| "map_insert k v ((k', v') # rest) =
     (if k = k' then (k', v') # rest
      else if k < k' then (k, v) # (k', v') # rest
      else (k', v') # map_insert k v rest)"

text \<open>\<open>find\<close> followed by the assignment \<open>it->second.time = t\<close>.\<close>

fun map_set_time :: "cookie \<Rightarrow> dl_time \<Rightarrow> timeout_handler_map \<Rightarrow> timeout_handler_map" where
  "map_set_time k t [] = []"
| "map_set_time k t ((k', v') # rest) =
     (if k = k' then (k', v'\<lparr>time := t\<rparr>) # rest
      else (k', v') # map_set_time k t rest)"

text \<open>\<open>find\<close> followed by \<open>erase(cookie)\<close>.\<close>

fun map_erase :: "cookie \<Rightarrow> timeout_handler_map \<Rightarrow> timeout_handler_map" where
  "map_erase k [] = []"
| "map_erase k ((k', v') # rest) =
     (if k = k' then rest else (k', v') # map_erase k rest)"

definition register_timeout_handler ::
  "DeviceImpl \<Rightarrow> dl_time \<Rightarrow> callback_id option \<Rightarrow> cookie \<Rightarrow> DeviceImpl" where
  "register_timeout_handler s now cb c =
     (let future_time = steady_time_in_future now (timeout_us s);
          entry = \<lparr>time = future_time, callback = cb\<rparr>
      in s\<lparr>timeout_handler_map := map_insert c entry (timeout_handler_map s)\<rparr>)"

definition update_timeout_handler :: "DeviceImpl \<Rightarrow> dl_time \<Rightarrow> cookie \<Rightarrow> DeviceImpl" where
  "update_timeout_handler s now c =
     (case map_of (timeout_handler_map s) c of
        Some _ \<Rightarrow>
          (let future_time = steady_time_in_future now (timeout_us s)
           in s\<lparr>timeout_handler_map := map_set_time c future_time (timeout_handler_map s)\<rparr>)
      | None \<Rightarrow> s)"

definition unregister_timeout_handler :: "DeviceImpl \<Rightarrow> cookie \<Rightarrow> DeviceImpl" where
  "unregister_timeout_handler s c =
     (case map_of (timeout_handler_map s) c of
        Some _ \<Rightarrow> s\<lparr>timeout_handler_map := map_erase c (timeout_handler_map s)\<rparr>
      | None \<Rightarrow> s)"

text \<open>
  The loop of \<open>check_timeouts\<close>. It reads \<open>steady_time()\<close> afresh for every entry it visits:
  \<open>clock i\<close> is the reading taken at the \<open>i\<close>-th entry visited. The first entry whose time
  lies before its reading is erased, its callback kept, and the loop left. The result is
  that callback (\<open>None\<close> is the initial \<open>nullptr\<close>) and the map that remains.
\<close>

fun scan_timeouts ::
  "(nat \<Rightarrow> dl_time) \<Rightarrow> nat \<Rightarrow> timeout_handler_map \<Rightarrow> callback_id option \<times> timeout_handler_map" where
  "scan_timeouts clock i [] = (None, [])"
| "scan_timeouts clock i ((k, v) # rest) =
     (if time v < clock i then (callback v, rest)
      else (case scan_timeouts clock (Suc i) rest of
              (cb, rest') \<Rightarrow> (cb, (k, v) # rest')))"

text \<open>After the lock is released the callback is called if it is not empty.\<close>

definition check_timeouts :: "DeviceImpl \<Rightarrow> (nat \<Rightarrow> dl_time) \<Rightarrow> DeviceImpl" where
  "check_timeouts s clock =
     (case scan_timeouts clock 0 (timeout_handler_map s) of
        (cb, m') \<Rightarrow>
          (let s' = s\<lparr>timeout_handler_map := m'\<rparr>
           in case cb of None \<Rightarrow> s' | Some f \<Rightarrow> emit (Timeout_fired f) s'))"


section \<open>Command protocol engine\<close>

definition report_result :: "callback_id option \<Rightarrow> CommandResult \<Rightarrow> DeviceImpl \<Rightarrow> DeviceImpl" where
  "report_result cb result s =
     (case cb of None \<Rightarrow> s | Some f \<Rightarrow> emit (Report f result) s)"

text \<open>
  \<open>send_command\<close>. The parent's \<open>send_message\<close> is the transport; \<open>link_ok\<close> is what it
  returns for the message of this call.
\<close>

definition send_command ::
  "DeviceImpl \<Rightarrow> bool \<Rightarrow> 16 word \<Rightarrow> CommandParams \<Rightarrow> CommandResult \<times> DeviceImpl" where
  "send_command s link_ok command params =
     (if target_system_id s = 0 \<and> target_component_id s = 0 then (NO_DEVICE, s)
      else
        (let message = COMMAND_LONG (target_system_id s) (target_component_id s) command params;
             s' = emit (Sent message) s
         in if \<not> link_ok then (CONNECTION_ERROR, s') else (SUCCESS, s')))"

definition process_command_ack :: "DeviceImpl \<Rightarrow> 8 word \<Rightarrow> DeviceImpl" where
  "process_command_ack s result =
     (if command_state s = WAITING then
        (let s1 = s\<lparr>command_result := result\<rparr>;
             s2 = s1\<lparr>command_state := RECEIVED\<rparr>;
             s3 = (if command_result s2 = MAV_RESULT_ACCEPTED then
                     (if command_result_callback s2 \<noteq> None
                      then report_result (command_result_callback s2) SUCCESS s2 else s2)
                   else
                     (if command_result_callback s2 \<noteq> None
                      then report_result (command_result_callback s2) SUCCESS s2 else s2))
         in s3\<lparr>command_result_callback := None\<rparr>)
      else s)"

text \<open>
  The blocking call waits in a loop of \<open>iterations\<close> rounds, each of which tests the state
  and sleeps. Acknowledgements are handled on another thread; \<open>acks\<close> is what that thread
  delivers while the caller waits: the result codes \<open>acks 0\<close> between the send and the first
  test, and \<open>acks (Suc i)\<close> during the sleep of round \<open>i\<close>.
\<close>

definition deliver_acks :: "DeviceImpl \<Rightarrow> 8 word list \<Rightarrow> DeviceImpl" where
  "deliver_acks s rs = foldl process_command_ack s rs"

fun wait_for_ack :: "(nat \<Rightarrow> 8 word list) \<Rightarrow> nat \<Rightarrow> nat \<Rightarrow> DeviceImpl \<Rightarrow> DeviceImpl" where
  "wait_for_ack acks i 0 s = s"
| "wait_for_ack acks i (Suc n) s =
     (if command_state s = RECEIVED then s
      else wait_for_ack acks (Suc i) n (deliver_acks s (acks (Suc i))))"

definition send_command_with_ack ::
  "DeviceImpl \<Rightarrow> bool \<Rightarrow> (nat \<Rightarrow> 8 word list) \<Rightarrow> 16 word \<Rightarrow> CommandParams
     \<Rightarrow> CommandResult \<times> DeviceImpl" where
  "send_command_with_ack s link_ok acks command params =
     (if command_state s = WAITING then (BUSY, s)
      else
        (let s1 = s\<lparr>command_result_callback := None\<rparr>;
             s2 = s1\<lparr>command_state := WAITING\<rparr>
         in case send_command s2 link_ok command params of
              (ret, s3) \<Rightarrow>
                if ret \<noteq> SUCCESS then (ret, s3)
                else
                  (let wait_time_us = 1000;
                       iterations = timeout_us s3 div wait_time_us;
                       s4 = wait_for_ack acks 0 iterations (deliver_acks s3 (acks 0))
                   in if command_state s4 \<noteq> RECEIVED
                      then (TIMEOUT, s4\<lparr>command_state := NONE\<rparr>)
                      else
                        (let s5 = s4\<lparr>command_state := NONE\<rparr>
                         in if command_result s5 \<noteq> MAV_RESULT_ACCEPTED
                            then (COMMAND_DENIED, s5) else (SUCCESS, s5)))))"

definition send_command_with_ack_async ::
  "DeviceImpl \<Rightarrow> bool \<Rightarrow> 16 word \<Rightarrow> CommandParams \<Rightarrow> callback_id option \<Rightarrow> DeviceImpl" where
  "send_command_with_ack_async s link_ok command params cb =
     (let s1 = (if command_state s = WAITING then report_result cb BUSY s else s)
      in case send_command s1 link_ok command params of
           (ret, s2) \<Rightarrow>
             if ret \<noteq> SUCCESS then (report_result cb ret s2)\<lparr>command_state := NONE\<rparr>
             else
               (let s3 = (if cb = None then emit (Debug ''Callback is null'') s2 else s2);
                    s4 = s3\<lparr>command_state := WAITING\<rparr>
                in s4\<lparr>command_result_callback := cb\<rparr>))"


section \<open>Identity and liveness\<close>

definition request_autopilot_version :: "DeviceImpl \<Rightarrow> bool \<Rightarrow> DeviceImpl" where
  "request_autopilot_version s link_ok =
     snd (send_command s link_ok MAV_CMD_REQUEST_AUTOPILOT_CAPABILITIES
            [Float_of_int 1, NAN, NAN, NAN, NAN, NAN, NAN])"

definition check_device_thread :: "DeviceImpl \<Rightarrow> DeviceImpl" where
  "check_device_thread s = (if \<not> device_thread s then s\<lparr>device_thread := True\<rparr> else s)"

text \<open>
  \<open>process_heartbeat\<close>: \<open>sysid\<close> and \<open>compid\<close> are the sender fields of the message, \<open>now\<close>
  the reading of \<open>steady_time()\<close>, \<open>link_ok\<close> the transport's answer should the capability
  request be sent.
\<close>

definition process_heartbeat :: "DeviceImpl \<Rightarrow> dl_time \<Rightarrow> bool \<Rightarrow> 8 word \<Rightarrow> 8 word \<Rightarrow> DeviceImpl" where
  "process_heartbeat s now link_ok sysid compid =
     (let s1 = (if target_system_id s = 0
                then s\<lparr>target_system_id := sysid, target_component_id := compid\<rparr> else s);
          s2 = (if target_uuid s1 = 0 then request_autopilot_version s1 link_ok else s1);
          s3 = check_device_thread s2;
          s4 = s3\<lparr>last_heartbeat_received_time := now\<rparr>
      in s4\<lparr>heartbeat_timed_out := False\<rparr>)"

definition process_autopilot_version :: "DeviceImpl \<Rightarrow> 64 word \<Rightarrow> 64 word \<Rightarrow> DeviceImpl" where
  "process_autopilot_version s uid capabilities =
     (if target_uuid s = 0 then
        (let s1 = s\<lparr>target_uuid := uid\<rparr>;
             s2 = s1\<lparr>target_supports_mission_int :=
                       (capabilities AND MAV_PROTOCOL_CAPABILITY_MISSION_INT \<noteq> 0)\<rparr>
         in emit (Notify_on_discover (target_uuid s2)) s2)
      else if target_uuid s \<noteq> uid then emit (Debug ''Error: UUID changed'') s
      else s)"



section \<open>Runs and example devices\<close>

text \<open>
  Inbound messages reach the handlers one after the other. A heartbeat is given with the
  clock reading at its arrival, the transport's answer to the capability request it may
  trigger, and its sender fields; a capability report with its unique id and capability bits.
\<close>

definition process_heartbeats ::
  "DeviceImpl \<Rightarrow> (dl_time \<times> bool \<times> 8 word \<times> 8 word) list \<Rightarrow> DeviceImpl" where
  "process_heartbeats =
     foldl (\<lambda>s (now, link_ok, sysid, compid). process_heartbeat s now link_ok sysid compid)"

definition process_autopilot_versions ::
  "DeviceImpl \<Rightarrow> (64 word \<times> 64 word) list \<Rightarrow> DeviceImpl" where
  "process_autopilot_versions =
     foldl (\<lambda>s (uid, capabilities). process_autopilot_version s uid capabilities)"


fun is_report :: "event \<Rightarrow> bool" where
  "is_report (Report f r) = True"
| "is_report e = False"

text \<open>A fresh device with a command timeout of 5 ms and a heartbeat timeout of 3 s, and the
  same device once a heartbeat of system 1, component 1, received at 1 s, has set its target
  (and made it ask for the capabilities).\<close>

definition fresh_device :: DeviceImpl where
  "fresh_device = DeviceImpl_new 5000 3000000"

definition example_device :: DeviceImpl where
  "example_device = process_heartbeat fresh_device 1000000 True 1 1"

text \<open>The example device with an asynchronous command under way: callback 7 is pending.\<close>

definition pending_async_device :: DeviceImpl where
  "pending_async_device = send_command_with_ack_async example_device True 176 [] (Some 7)"

text \<open>The other thread delivers one acknowledgement, with result \<open>r\<close>, in slot \<open>n\<close> of the
  wait.\<close>

definition ack_in_round :: "nat \<Rightarrow> 8 word \<Rightarrow> nat \<Rightarrow> 8 word list" where
  "ack_in_round n r i = (if i = n then [r] else [])"

text \<open>A device whose command state is \<open>NONE\<close> while a completion callback is still stored:
  the asynchronous command with callback 7 is pending, and a second asynchronous command,
  with callback 8, fails to send.\<close>

definition stale_callback_device :: DeviceImpl where
  "stale_callback_device =
     send_command_with_ack_async pending_async_device False 176 [] (Some 8)"


text \<open>A device with three pending timeouts, registered for the owners 3, 5 and 9 at the times
  100, 50 and 60, and a device with a single one, registered for owner 7 at time 0.\<close>

definition registry_device :: DeviceImpl where
  "registry_device =
     register_timeout_handler
       (register_timeout_handler
          (register_timeout_handler fresh_device 100 (Some 30) 3) 50 (Some 50) 5)
       60 (Some 90) 9"

definition once_registered_device :: DeviceImpl where
  "once_registered_device = register_timeout_handler fresh_device 0 (Some 1) 7"

text \<open>During a poll with the clock readings \<open>clock\<close>, the deadline of the entry at position
  \<open>i\<close> of the map has passed when the loop reaches it.\<close>

definition deadline_passed :: "(nat \<Rightarrow> dl_time) \<Rightarrow> timeout_handler_map \<Rightarrow> nat \<Rightarrow> bool" where
  "deadline_passed clock m i = (time (snd (m ! i)) < clock i)"


section \<open>Properties of the command protocol engine\<close>

lemma emit_fields [simp]:
  "trace (emit e s) = trace s @ [e]"
  "command_state (emit e s) = command_state s"
  "command_result (emit e s) = command_result s"
  "command_result_callback (emit e s) = command_result_callback s"
  "timeout_us (emit e s) = timeout_us s"
  "target_system_id (emit e s) = target_system_id s"
  "target_component_id (emit e s) = target_component_id s"
  "target_uuid (emit e s) = target_uuid s"
  "timeout_handler_map (emit e s) = timeout_handler_map s"
  "heartbeat_timed_out (emit e s) = heartbeat_timed_out s"
  "heartbeat_timeout_us (emit e s) = heartbeat_timeout_us s"
  "last_heartbeat_received_time (emit e s) = last_heartbeat_received_time s"
  by (simp_all add: emit_def)

lemma example_device_record:
  "example_device =
     \<lparr> timeout_handler_map = [],
       target_system_id = 1,
       target_component_id = 1,
       target_uuid = 0,
       target_supports_mission_int = False,
       command_result = MAV_RESULT_FAILED,
       command_state = NONE,
       command_result_callback = None,
       device_thread = True,
       should_exit = False,
       timeout_us = 5000,
       last_heartbeat_received_time = 1000000,
       heartbeat_timeout_us = 3000000,
       heartbeat_timed_out = False,
       trace = [Sent (COMMAND_LONG 1 1 520 [Float_of_int 1, NAN, NAN, NAN, NAN, NAN, NAN])] \<rparr>"
  by (simp add: example_device_def process_heartbeat_def request_autopilot_version_def
      check_device_thread_def send_command_def emit_def fresh_device_def DeviceImpl_new_def
      MAV_CMD_REQUEST_AUTOPILOT_CAPABILITIES_def Let_def)

lemmas example_defs = example_device_record fresh_device_def DeviceImpl_new_def

lemma pending_async_device_fields:
  "command_state pending_async_device = WAITING"
  "command_result_callback pending_async_device = Some 7"
  "target_system_id pending_async_device = 1"
  "target_component_id pending_async_device = 1"
  "trace pending_async_device = trace example_device @ [Sent (COMMAND_LONG 1 1 176 [])]"
  by (simp_all add: pending_async_device_def send_command_with_ack_async_def send_command_def
      example_device_record emit_def Let_def)

subsection \<open>Fire-and-forget commands\<close>

text \<open>
  C7. \<open>send_command\<close> returns \<open>NO_DEVICE\<close> and does nothing else when the target system id
  and the target component id are both still 0. Otherwise it hands exactly one command
  message, addressed to the target, to the transport, and returns \<open>SUCCESS\<close> when the
  transport accepts it and \<open>CONNECTION_ERROR\<close> when it does not. In every case the device
  is unchanged apart from the record of what was sent: command state, result and pending
  callback stay as they were.
\<close>

theorem send_command_outcome:
  "(target_system_id s = 0 \<and> target_component_id s = 0 \<longrightarrow>
      send_command s link_ok command params = (NO_DEVICE, s)) \<and>
   (\<not> (target_system_id s = 0 \<and> target_component_id s = 0) \<longrightarrow>
      fst (send_command s link_ok command params) = (if link_ok then SUCCESS else CONNECTION_ERROR) \<and>
      trace (snd (send_command s link_ok command params)) =
        trace s @ [Sent (COMMAND_LONG (target_system_id s) (target_component_id s) command params)]) \<and>
   snd (send_command s link_ok command params) =
     s\<lparr>trace := trace (snd (send_command s link_ok command params))\<rparr>"
  by (simp add: send_command_def emit_def Let_def)

theorem send_command_outcome_witness:
  "send_command fresh_device True 176 [] = (NO_DEVICE, fresh_device) \<and>
   fst (send_command example_device False 176 []) = CONNECTION_ERROR \<and>
   fst (send_command example_device True 176 []) = SUCCESS \<and>
   trace (snd (send_command example_device True 176 [])) =
     trace example_device @ [Sent (COMMAND_LONG 1 1 176 [])] \<and>
   command_state (snd (send_command example_device True 176 [])) = NONE"
  using send_command_outcome [of fresh_device True 176 "[]"]
    send_command_outcome [of example_device False 176 "[]"]
    send_command_outcome [of example_device True 176 "[]"]
  by (simp add: example_defs send_command_def emit_def Let_def)

subsection \<open>The blocking command\<close>

lemma send_command_with_ack_busy:
  "command_state s = WAITING \<Longrightarrow>
     send_command_with_ack s link_ok acks command params = (BUSY, s)"
  by (simp add: send_command_with_ack_def)

lemma send_command_with_ack_idle_after_wait:
  assumes "send_command_with_ack s link_ok acks command params = (ret, s')"
    and "ret = SUCCESS \<or> ret = COMMAND_DENIED \<or> ret = TIMEOUT"
  shows "command_state s' = NONE"
  using assms
  by (auto simp: send_command_with_ack_def send_command_def Let_def split: if_splits)

text \<open>
  C1. The claim fails where the send fails. On a fresh device, whose target is unknown, the
  blocking call returns \<open>NO_DEVICE\<close>; on a device whose transport refuses the message it
  returns \<open>CONNECTION_ERROR\<close>. Both times the command state it leaves behind is \<open>WAITING\<close>.
\<close>

theorem send_command_with_ack_failed_send_stays_waiting:
  "fst (send_command_with_ack fresh_device True (\<lambda>i. []) 176 []) = NO_DEVICE \<and>
   command_state (snd (send_command_with_ack fresh_device True (\<lambda>i. []) 176 [])) = WAITING \<and>
   fst (send_command_with_ack example_device False (\<lambda>i. []) 176 []) = CONNECTION_ERROR \<and>
   command_state (snd (send_command_with_ack example_device False (\<lambda>i. []) 176 [])) = WAITING"
  by (simp add: send_command_with_ack_def send_command_def example_defs Let_def)

subsection \<open>Acknowledgements\<close>

text \<open>An acknowledgement is ignored unless the state is \<open>WAITING\<close>; otherwise its result
  code is stored and the state becomes \<open>RECEIVED\<close>. A blocking call that ends with \<open>SUCCESS\<close>
  or \<open>COMMAND_DENIED\<close> returns \<open>SUCCESS\<close> exactly when the stored result is "accepted".\<close>

lemma process_command_ack_waiting:
  "command_state s = WAITING \<Longrightarrow>
     command_state (process_command_ack s r) = RECEIVED \<and>
     command_result (process_command_ack s r) = r"
  by (simp add: process_command_ack_def report_result_def Let_def split: option.splits)

lemma process_command_ack_ignored:
  "command_state s \<noteq> WAITING \<Longrightarrow> process_command_ack s r = s"
  by (simp add: process_command_ack_def)

lemma send_command_with_ack_result:
  assumes "send_command_with_ack s link_ok acks command params = (ret, s')"
    and "ret = SUCCESS \<or> ret = COMMAND_DENIED"
  shows "(ret = SUCCESS) = (command_result s' = MAV_RESULT_ACCEPTED)"
  using assms
  by (auto simp: send_command_with_ack_def send_command_def Let_def split: if_splits)

text \<open>
  C2. The claim fails for a denied command issued asynchronously: with callback 7 pending and
  the state \<open>WAITING\<close>, an acknowledgement whose result is \<open>MAV_RESULT_DENIED\<close> calls the
  callback with \<open>SUCCESS\<close>.
\<close>

theorem process_command_ack_denied_reports_success:
  "command_state pending_async_device = WAITING \<and>
   command_result_callback pending_async_device = Some 7 \<and>
   trace (process_command_ack pending_async_device MAV_RESULT_DENIED) =
     trace pending_async_device @ [Report 7 SUCCESS]"
  by (simp add: process_command_ack_def report_result_def pending_async_device_fields
      MAV_RESULT_DENIED_def MAV_RESULT_ACCEPTED_def Let_def)

subsection \<open>The asynchronous command\<close>

text \<open>
  C3. The claim fails for the asynchronous variant: called while the state is \<open>WAITING\<close>
  (callback 7 pending), it reports \<open>BUSY\<close> to the new callback 8 and then goes on: it sends
  the command and replaces the pending callback by 8.
\<close>

theorem send_command_with_ack_async_busy_still_sends:
  "command_state pending_async_device = WAITING \<and>
   command_result_callback pending_async_device = Some 7 \<and>
   trace (send_command_with_ack_async pending_async_device True 176 [] (Some 8)) =
     trace pending_async_device @ [Report 8 BUSY, Sent (COMMAND_LONG 1 1 176 [])] \<and>
   command_result_callback (send_command_with_ack_async pending_async_device True 176 [] (Some 8)) =
     Some 8"
  by (simp add: send_command_with_ack_async_def send_command_def report_result_def
      pending_async_device_fields Let_def)

subsection \<open>A blocking command and a stale callback\<close>

lemma process_command_ack_no_callback:
  assumes "command_result_callback s = None"
  shows "trace (process_command_ack s r) = trace s"
    and "command_result_callback (process_command_ack s r) = None"
  using assms by (simp_all add: process_command_ack_def Let_def)

lemma deliver_acks_no_callback:
  "command_result_callback s = None \<Longrightarrow>
     trace (deliver_acks s rs) = trace s \<and> command_result_callback (deliver_acks s rs) = None"
  unfolding deliver_acks_def
  by (induction rs arbitrary: s) (simp_all add: process_command_ack_no_callback)

lemma wait_for_ack_no_callback:
  "command_result_callback s = None \<Longrightarrow>
     trace (wait_for_ack acks i n s) = trace s \<and>
     command_result_callback (wait_for_ack acks i n s) = None"
  by (induction n arbitrary: i s) (simp_all add: deliver_acks_no_callback)

lemma send_command_keeps_callback:
  "command_result_callback (snd (send_command s ok c p)) = command_result_callback s"
  by (simp add: send_command_def Let_def)

lemma stale_callback_device_fields:
  "command_state stale_callback_device = NONE"
  "command_result_callback stale_callback_device = Some 7"
  "trace stale_callback_device =
     trace pending_async_device @
       [Report 8 BUSY, Sent (COMMAND_LONG 1 1 176 []), Report 8 CONNECTION_ERROR]"
  by (simp_all add: stale_callback_device_def send_command_with_ack_async_def send_command_def
      report_result_def pending_async_device_fields Let_def)

text \<open>
  C10. A blocking call that passes the busy check empties the pending callback before it
  sends, so whatever acknowledgements arrive while it waits, no completion callback is
  called during the call (the calls recorded afterwards are those recorded before), and
  the pending callback is empty when the call returns.
\<close>

theorem blocking_command_invokes_no_callback:
  assumes "command_state s \<noteq> WAITING"
  shows "filter is_report (trace (snd (send_command_with_ack s link_ok acks command params)))
           = filter is_report (trace s) \<and>
         command_result_callback (snd (send_command_with_ack s link_ok acks command params)) = None"
proof -
  let ?s2 = "s\<lparr>command_result_callback := None, command_state := WAITING\<rparr>"
  obtain ret s3 where sc: "send_command ?s2 link_ok command params = (ret, s3)"
    by (cases "send_command ?s2 link_ok command params")
  have cb3: "command_result_callback s3 = None"
    using send_command_keeps_callback [of ?s2 link_ok command params] sc by simp
  have tr3: "filter is_report (trace s3) = filter is_report (trace s)"
    using sc by (auto simp: send_command_def Let_def split: if_splits)
  let ?s3' = "deliver_acks s3 (acks 0)"
  have d: "trace ?s3' = trace s3" "command_result_callback ?s3' = None"
    using deliver_acks_no_callback [OF cb3] by simp_all
  let ?s4 = "wait_for_ack acks 0 (timeout_us s3 div 1000) ?s3'"
  have w: "trace ?s4 = trace s3" "command_result_callback ?s4 = None"
    using wait_for_ack_no_callback [OF d(2)] d(1) by simp_all
  show ?thesis
    using assms sc cb3 tr3 w
    by (simp add: send_command_with_ack_def Let_def)
qed

theorem blocking_command_invokes_no_callback_witness:
  "command_state stale_callback_device \<noteq> WAITING \<and>
   command_result_callback stale_callback_device = Some 7 \<and>
   filter is_report (trace (snd (send_command_with_ack stale_callback_device True
       (ack_in_round 2 MAV_RESULT_ACCEPTED) 176 []))) = [Report 8 BUSY, Report 8 CONNECTION_ERROR] \<and>
   command_result_callback (snd (send_command_with_ack stale_callback_device True
       (ack_in_round 2 MAV_RESULT_ACCEPTED) 176 [])) = None"
  using blocking_command_invokes_no_callback [of stale_callback_device True
      "ack_in_round 2 MAV_RESULT_ACCEPTED" 176 "[]"]
  by (simp add: stale_callback_device_fields pending_async_device_fields example_device_record)


section \<open>Properties of liveness and identity\<close>

lemma send_command_frame:
  "heartbeat_timed_out (snd (send_command s ok c p)) = heartbeat_timed_out s"
  "heartbeat_timeout_us (snd (send_command s ok c p)) = heartbeat_timeout_us s"
  "last_heartbeat_received_time (snd (send_command s ok c p)) = last_heartbeat_received_time s"
  "target_system_id (snd (send_command s ok c p)) = target_system_id s"
  "target_component_id (snd (send_command s ok c p)) = target_component_id s"
  "target_uuid (snd (send_command s ok c p)) = target_uuid s"
  by (simp_all add: send_command_def Let_def)

lemma process_heartbeat_fields:
  "heartbeat_timed_out (process_heartbeat s now ok sy co) = False"
  "last_heartbeat_received_time (process_heartbeat s now ok sy co) = now"
  "heartbeat_timeout_us (process_heartbeat s now ok sy co) = heartbeat_timeout_us s"
  "target_uuid (process_heartbeat s now ok sy co) = target_uuid s"
  "target_system_id (process_heartbeat s now ok sy co) =
     (if target_system_id s = 0 then sy else target_system_id s)"
  "target_component_id (process_heartbeat s now ok sy co) =
     (if target_system_id s = 0 then co else target_component_id s)"
  by (simp_all add: process_heartbeat_def request_autopilot_version_def check_device_thread_def
      send_command_frame Let_def)





lemma fresh_device_fields:
  "heartbeat_timeout_us fresh_device = 3000000"
  "target_uuid fresh_device = 0"
  "target_system_id fresh_device = 0"
  "target_component_id fresh_device = 0"
  "trace fresh_device = []"
  by (simp_all add: fresh_device_def DeviceImpl_new_def)


subsection \<open>Loss of heartbeats\<close>




subsection \<open>Target system and component id\<close>

lemma process_heartbeats_Cons:
  "process_heartbeats s ((now, ok, sy, co) # hs) =
     process_heartbeats (process_heartbeat s now ok sy co) hs"
  by (simp add: process_heartbeats_def)

lemma process_heartbeats_identified:
  "target_system_id s \<noteq> 0 \<Longrightarrow>
     target_system_id (process_heartbeats s hs) = target_system_id s \<and>
     target_component_id (process_heartbeats s hs) = target_component_id s"
proof (induction hs arbitrary: s)
  case Nil
  then show ?case by (simp add: process_heartbeats_def)
next
  case (Cons h hs)
  obtain now ok sy co where h: "h = (now, ok, sy, co)" by (cases h)
  show ?case
    using Cons.prems Cons.IH [of "process_heartbeat s now ok sy co"]
    by (simp add: h process_heartbeats_Cons process_heartbeat_fields)
qed

lemma process_heartbeats_unidentified:
  "target_system_id s = 0 \<Longrightarrow>
     (case dropWhile (\<lambda>(now, ok, sy, co). sy = 0) hs of
        [] \<Rightarrow> target_system_id (process_heartbeats s hs) = 0
      | (now, ok, sy, co) # later \<Rightarrow>
          target_system_id (process_heartbeats s hs) = sy \<and>
          target_component_id (process_heartbeats s hs) = co)"
proof (induction hs arbitrary: s)
  case Nil
  then show ?case by (simp add: process_heartbeats_def)
next
  case (Cons h hs)
  obtain now ok sy co where h: "h = (now, ok, sy, co)" by (cases h)
  let ?s' = "process_heartbeat s now ok sy co"
  have step: "process_heartbeats s (h # hs) = process_heartbeats ?s' hs"
    by (simp add: h process_heartbeats_Cons)
  show ?case
  proof (cases "sy = 0")
    case True
    have skip: "dropWhile (\<lambda>(now, ok, sy, co). sy = 0) (h # hs) =
        dropWhile (\<lambda>(now, ok, sy, co). sy = 0) hs"
      using True by (simp add: h)
    have "target_system_id ?s' = 0"
      using True Cons.prems by (simp add: process_heartbeat_fields)
    from Cons.IH [OF this] show ?thesis
      unfolding step skip .
  next
    case False
    have stop: "dropWhile (\<lambda>(now, ok, sy, co). sy = 0) (h # hs) = (now, ok, sy, co) # hs"
      using False by (simp add: h)
    have ids: "target_system_id ?s' = sy" "target_component_id ?s' = co"
      using Cons.prems by (simp_all add: process_heartbeat_fields)
    with False have "target_system_id ?s' \<noteq> 0" by simp
    from process_heartbeats_identified [OF this] show ?thesis
      unfolding step stop by (simp add: ids)
  qed
qed

text \<open>
  The value 0 of the target system id means "not set". Once the target system id is not 0,
  no heartbeat changes the target system id or the target component id. While it is 0,
  both ids are taken from the first heartbeat whose sender system id is not 0 (and stay as
  that heartbeat set them); if there is none, the system id is still 0.
\<close>

lemma process_heartbeats_target_ids:
  "(target_system_id s \<noteq> 0 \<longrightarrow>
      target_system_id (process_heartbeats s hs) = target_system_id s \<and>
      target_component_id (process_heartbeats s hs) = target_component_id s) \<and>
   (target_system_id s = 0 \<longrightarrow>
      (case dropWhile (\<lambda>(now, ok, sy, co). sy = 0) hs of
         [] \<Rightarrow> target_system_id (process_heartbeats s hs) = 0
       | (now, ok, sy, co) # later \<Rightarrow>
           target_system_id (process_heartbeats s hs) = sy \<and>
           target_component_id (process_heartbeats s hs) = co))"
  using process_heartbeats_identified [of s hs] process_heartbeats_unidentified [of s hs]
  by blast

lemma process_heartbeats_single_sender:
  "\<forall>h\<in>set hs. snd (snd h) = (sy, co) \<Longrightarrow> target_system_id s = sy \<Longrightarrow>
     target_component_id s = co \<Longrightarrow>
     target_system_id (process_heartbeats s hs) = sy \<and>
     target_component_id (process_heartbeats s hs) = co"
proof (induction hs arbitrary: s)
  case Nil
  then show ?case by (simp add: process_heartbeats_def)
next
  case (Cons h hs)
  obtain now ok where h: "h = (now, ok, sy, co)"
    using Cons.prems(1) by (cases h) auto
  let ?s' = "process_heartbeat s now ok sy co"
  have step: "process_heartbeats s (h # hs) = process_heartbeats ?s' hs"
    by (simp add: h process_heartbeats_Cons)
  have ids: "target_system_id ?s' = sy" "target_component_id ?s' = co"
    using Cons.prems(2,3) by (simp_all add: process_heartbeat_fields)
  have rest: "\<forall>h\<in>set hs. snd (snd h) = (sy, co)"
    using Cons.prems(1) by simp
  from Cons.IH [OF rest ids] show ?case
    unfolding step .
qed

text \<open>
  C9. On a device whose target is not set yet, the first heartbeat sets the target system
  id and the target component id to its sender fields, and whatever heartbeats follow, the
  two ids are still those of the first heartbeat afterwards. This holds for every sequence
  of heartbeats of a single sender, and for every sequence whatsoever whose first sender
  has a system id other than 0.
\<close>

theorem target_ids_set_by_first_heartbeat:
  assumes "target_system_id s = 0"
    and "sysid \<noteq> 0 \<or> (\<forall>h\<in>set later. snd (snd h) = (sysid, compid))"
  shows "target_system_id (process_heartbeat s now link_ok sysid compid) = sysid \<and>
         target_component_id (process_heartbeat s now link_ok sysid compid) = compid \<and>
         target_system_id (process_heartbeats s ((now, link_ok, sysid, compid) # later)) = sysid \<and>
         target_component_id (process_heartbeats s ((now, link_ok, sysid, compid) # later)) = compid"
proof -
  let ?s' = "process_heartbeat s now link_ok sysid compid"
  have first: "target_system_id ?s' = sysid" "target_component_id ?s' = compid"
    using assms(1) by (simp_all add: process_heartbeat_fields)
  have "target_system_id (process_heartbeats ?s' later) = sysid \<and>
      target_component_id (process_heartbeats ?s' later) = compid"
  proof (cases "sysid = 0")
    case False
    with first have "target_system_id ?s' \<noteq> 0" by simp
    from process_heartbeats_identified [OF this, of later] first show ?thesis by simp
  next
    case True
    with assms(2) have "\<forall>h\<in>set later. snd (snd h) = (sysid, compid)" by simp
    from process_heartbeats_single_sender [OF this first] show ?thesis .
  qed
  with first show ?thesis by (simp add: process_heartbeats_Cons)
qed

theorem target_ids_set_by_first_heartbeat_witness:
  "target_system_id (process_heartbeats fresh_device [(10, True, 1, 1), (20, True, 3, 4), (30, True, 0, 6)]) = 1 \<and>
   target_component_id (process_heartbeats fresh_device [(10, True, 1, 1), (20, True, 3, 4), (30, True, 0, 6)]) = 1 \<and>
   target_system_id (process_heartbeats fresh_device [(10, True, 0, 7), (20, False, 0, 7)]) = 0 \<and>
   target_component_id (process_heartbeats fresh_device [(10, True, 0, 7), (20, False, 0, 7)]) = 7"
proof -
  have unset: "target_system_id fresh_device = 0"
    by (simp add: fresh_device_fields)
  have other_senders: "(1 :: 8 word) \<noteq> 0 \<or>
      (\<forall>h\<in>set [(20 :: dl_time, True, 3 :: 8 word, 4 :: 8 word), (30, True, 0, 6)]. snd (snd h) = (1, 1))"
    by simp
  have one_sender: "(0 :: 8 word) \<noteq> 0 \<or>
      (\<forall>h\<in>set [(20 :: dl_time, False, 0 :: 8 word, 7 :: 8 word)]. snd (snd h) = (0, 7))"
    by simp
  show ?thesis
    using target_ids_set_by_first_heartbeat [OF unset other_senders, of 10 True]
      target_ids_set_by_first_heartbeat [OF unset one_sender, of 10 True]
    by simp
qed

subsection \<open>Unique id\<close>

lemma process_autopilot_versions_Cons:
  "process_autopilot_versions s ((uid, caps) # rs) =
     process_autopilot_versions (process_autopilot_version s uid caps) rs"
  by (simp add: process_autopilot_versions_def)

lemma process_autopilot_version_uuid:
  "target_uuid (process_autopilot_version s uid caps) =
     (if target_uuid s = 0 then uid else target_uuid s)"
  by (simp add: process_autopilot_version_def Let_def)

lemma process_autopilot_version_known:
  "target_uuid s \<noteq> 0 \<Longrightarrow>
     process_autopilot_version s uid caps =
       (if uid \<noteq> target_uuid s then emit (Debug ''Error: UUID changed'') s else s)"
  by (auto simp add: process_autopilot_version_def)

lemma process_autopilot_versions_known:
  "target_uuid s \<noteq> 0 \<Longrightarrow> target_uuid (process_autopilot_versions s rs) = target_uuid s"
proof (induction rs arbitrary: s)
  case Nil
  then show ?case by (simp add: process_autopilot_versions_def)
next
  case (Cons r rs)
  obtain uid caps where r: "r = (uid, caps)" by (cases r)
  show ?case
    using Cons.prems Cons.IH [of "process_autopilot_version s uid caps"]
    by (simp add: r process_autopilot_versions_Cons process_autopilot_version_uuid)
qed

lemma process_autopilot_versions_unknown:
  "target_uuid s = 0 \<Longrightarrow>
     target_uuid (process_autopilot_versions s rs) =
       (case dropWhile (\<lambda>(uid, caps). uid = 0) rs of [] \<Rightarrow> 0 | (uid, caps) # later \<Rightarrow> uid)"
proof (induction rs arbitrary: s)
  case Nil
  then show ?case by (simp add: process_autopilot_versions_def)
next
  case (Cons r rs)
  obtain uid caps where r: "r = (uid, caps)" by (cases r)
  show ?case
  proof (cases "uid = 0")
    case True
    then show ?thesis
      using Cons.prems Cons.IH [of "process_autopilot_version s uid caps"]
      by (simp add: r process_autopilot_versions_Cons process_autopilot_version_uuid)
  next
    case False
    then show ?thesis
      using Cons.prems process_autopilot_versions_known [of "process_autopilot_version s uid caps" rs]
      by (simp add: r process_autopilot_versions_Cons process_autopilot_version_uuid)
  qed
qed

text \<open>
  C5, as the code has it. The value 0 of the unique id means "not set". While it is 0, the
  id is taken from the first capability report whose id is not 0, and stays 0 if there is
  none. Once it is not 0, no sequence of capability reports changes it, and a report
  carrying another id leaves the device as it is except for the line
  \<open>Error: UUID changed\<close> written to the debug log.
\<close>

theorem unique_id_set_by_first_nonzero_report:
  "(target_uuid s = 0 \<longrightarrow>
      target_uuid (process_autopilot_versions s rs) =
        (case dropWhile (\<lambda>(uid, caps). uid = 0) rs of [] \<Rightarrow> 0 | (uid, caps) # later \<Rightarrow> uid)) \<and>
   (target_uuid s \<noteq> 0 \<longrightarrow>
      target_uuid (process_autopilot_versions s rs) = target_uuid s \<and>
      process_autopilot_version s uid capabilities =
        (if uid \<noteq> target_uuid s then emit (Debug ''Error: UUID changed'') s else s))"
  using process_autopilot_versions_unknown [of s rs] process_autopilot_versions_known [of s rs]
    process_autopilot_version_known [of s uid capabilities]
  by blast

theorem unique_id_set_by_first_nonzero_report_witness:
  "target_uuid (process_autopilot_versions fresh_device [(0, 0), (5, 4), (6, 0)]) = 5 \<and>
   target_uuid (process_autopilot_versions (fresh_device\<lparr>target_uuid := 5\<rparr>) [(6, 0), (0, 0)]) = 5 \<and>
   trace (process_autopilot_version (fresh_device\<lparr>target_uuid := 5\<rparr>) 6 0) = [Debug ''Error: UUID changed'']"
  using unique_id_set_by_first_nonzero_report [of fresh_device "[(0, 0), (5, 4), (6, 0)]"]
    unique_id_set_by_first_nonzero_report [of "fresh_device\<lparr>target_uuid := 5\<rparr>" "[(6, 0), (0, 0)]" 6 0]
  by (simp add: fresh_device_fields)

text \<open>
  C5 as stated fails: after a first report with unique id 0 the stored id is 0; a second
  report, with id 5, overwrites it and is announced as a discovery, with no anomaly logged.
\<close>

theorem zero_unique_id_is_overwritten:
  "target_uuid (process_autopilot_versions fresh_device [(0, 0)]) = 0 \<and>
   target_uuid (process_autopilot_versions fresh_device [(0, 0), (5, 0)]) = 5 \<and>
   trace (process_autopilot_versions fresh_device [(0, 0), (5, 0)]) =
     [Notify_on_discover 0, Notify_on_discover 5]"
  by (simp add: process_autopilot_versions_def process_autopilot_version_def fresh_device_def
      DeviceImpl_new_def Let_def)


section \<open>Properties of the timeout registry\<close>

text \<open>The operations on the map: each keeps the keys strictly increasing, hence unique.\<close>

lemma map_insert_above:
  "\<forall>x\<in>set m. k' < fst x \<Longrightarrow> k' < k \<Longrightarrow> \<forall>x\<in>set (map_insert k v m). k' < fst x"
proof (induction m)
  case Nil
  then show ?case by simp
next
  case (Cons p m)
  then have "\<forall>x\<in>set (map_insert k v m). k' < fst x" "k' < fst p" "\<forall>x\<in>set m. k' < fst x"
    by simp_all
  with Cons.prems(2) show ?case by (cases p) simp
qed

lemma map_erase_above:
  "\<forall>x\<in>set m. k' < fst x \<Longrightarrow> \<forall>x\<in>set (map_erase k m). k' < fst x"
proof (induction m)
  case Nil
  then show ?case by simp
next
  case (Cons p m)
  then have "\<forall>x\<in>set (map_erase k m). k' < fst x" "k' < fst p" "\<forall>x\<in>set m. k' < fst x"
    by simp_all
  then show ?case by (cases p) simp
qed

lemma map_of_not_above:
  fixes m :: timeout_handler_map
  shows "\<forall>x\<in>set m. k' < fst x \<Longrightarrow> k \<le> k' \<Longrightarrow> map_of m k = None"
  by (induction m) auto

lemma sorted_map_insert:
  "sorted_wrt (<) (map fst m) \<Longrightarrow> sorted_wrt (<) (map fst (map_insert k v m))"
proof (induction m)
  case Nil
  then show ?case by simp
next
  case (Cons p m)
  obtain k' v' where p: "p = (k', v')" by (cases p)
  from Cons.prems have tl: "sorted_wrt (<) (map fst m)" and hd: "\<forall>x\<in>set m. k' < fst x"
    by (simp_all add: p)
  show ?case
  proof (cases "k = k' \<or> k < k'")
    case True
    then show ?thesis using tl hd by (auto simp: p)
  next
    case False
    then have "k' < k" by auto
    then show ?thesis
      using False Cons.IH [OF tl] map_insert_above [OF hd, of k v] by (simp add: p)
  qed
qed

lemma map_insert_present:
  fixes m :: timeout_handler_map
  shows "sorted_wrt (<) (map fst m) \<Longrightarrow> map_of m k \<noteq> None \<Longrightarrow> map_insert k v m = m"
proof (induction m)
  case Nil
  then show ?case by simp
next
  case (Cons p m)
  obtain k' v' where p: "p = (k', v')" by (cases p)
  from Cons.prems have tl: "sorted_wrt (<) (map fst m)" and hd: "\<forall>x\<in>set m. k' < fst x"
    by (simp_all add: p)
  show ?case
  proof (cases "k = k'")
    case True
    then show ?thesis by (simp add: p)
  next
    case False
    with Cons.prems have in_tl: "map_of m k \<noteq> None" by (simp add: p)
    then have "\<not> k < k'"
      using map_of_not_above [OF hd, of k] by auto
    then show ?thesis
      using False Cons.IH [OF tl in_tl] by (simp add: p)
  qed
qed

lemma map_insert_absent:
  "map_of m k = None \<Longrightarrow> map_of (map_insert k v m) = (map_of m)(k \<mapsto> v)"
  by (induction m) (auto simp: fun_eq_iff split: if_splits)

lemma keys_map_set_time: "map fst (map_set_time k t m) = map fst m"
  by (induction m) auto

lemma map_of_map_set_time:
  "map_of (map_set_time k t m) =
     (case map_of m k of None \<Rightarrow> map_of m | Some e \<Rightarrow> (map_of m)(k \<mapsto> e\<lparr>time := t\<rparr>))"
  by (induction m) (auto simp: fun_eq_iff split: option.splits)

lemma sorted_map_erase:
  fixes m :: timeout_handler_map
  shows "sorted_wrt (<) (map fst m) \<Longrightarrow> sorted_wrt (<) (map fst (map_erase k m))"
proof (induction m)
  case Nil
  then show ?case by simp
next
  case (Cons p m)
  obtain k' v' where p: "p = (k', v')" by (cases p)
  from Cons.prems have tl: "sorted_wrt (<) (map fst m)" and hd: "\<forall>x\<in>set m. k' < fst x"
    by (simp_all add: p)
  show ?case
    using tl Cons.IH [OF tl] map_erase_above [OF hd, of k] by (simp add: p)
qed

lemma map_of_map_erase:
  fixes m :: timeout_handler_map
  shows "sorted_wrt (<) (map fst m) \<Longrightarrow> map_of (map_erase k m) = (map_of m)(k := None)"
proof (induction m)
  case Nil
  then show ?case by simp
next
  case (Cons p m)
  obtain k' v' where p: "p = (k', v')" by (cases p)
  from Cons.prems have tl: "sorted_wrt (<) (map fst m)" and hd: "\<forall>x\<in>set m. k' < fst x"
    by (simp_all add: p)
  show ?case
  proof (cases "k = k'")
    case True
    have "map_of m k = None"
      using map_of_not_above [OF hd, of k] True by simp
    then show ?thesis using True by (auto simp: p fun_eq_iff)
  next
    case False
    then show ?thesis using Cons.IH [OF tl] by (auto simp: p fun_eq_iff)
  qed
qed

lemma scan_timeouts_outcome:
  "scan_timeouts clock n m = (cb, m') \<Longrightarrow>
     (cb = None \<and> m' = m \<and> (\<forall>i<length m. \<not> time (snd (m ! i)) < clock (n + i))) \<or>
     (\<exists>i<length m. time (snd (m ! i)) < clock (n + i) \<and>
        (\<forall>j<i. \<not> time (snd (m ! j)) < clock (n + j)) \<and>
        cb = callback (snd (m ! i)) \<and> m' = take i m @ drop (Suc i) m)"
proof (induction m arbitrary: n cb m')
  case Nil
  then show ?case by simp
next
  case (Cons p m)
  obtain k v where p: "p = (k, v)" by (cases p)
  show ?case
  proof (cases "time v < clock n")
    case True
    with Cons.prems have "cb = callback v" "m' = m" by (simp_all add: p)
    with True have "0 < length (p # m) \<and> time (snd ((p # m) ! 0)) < clock (n + 0) \<and>
        (\<forall>j<0. \<not> time (snd ((p # m) ! j)) < clock (n + j)) \<and>
        cb = callback (snd ((p # m) ! 0)) \<and> m' = take 0 (p # m) @ drop (Suc 0) (p # m)"
      by (simp add: p)
    then show ?thesis by blast
  next
    case False
    obtain cb1 m1 where rec: "scan_timeouts clock (Suc n) m = (cb1, m1)"
      by (cases "scan_timeouts clock (Suc n) m")
    with False Cons.prems have res: "cb = cb1" "m' = p # m1" by (simp_all add: p)
    from Cons.IH [OF rec] show ?thesis
    proof
      assume none: "cb1 = None \<and> m1 = m \<and> (\<forall>i<length m. \<not> time (snd (m ! i)) < clock (Suc n + i))"
      have "\<forall>i<length (p # m). \<not> time (snd ((p # m) ! i)) < clock (n + i)"
      proof (intro allI impI)
        fix i assume "i < length (p # m)"
        then show "\<not> time (snd ((p # m) ! i)) < clock (n + i)"
          using none False by (cases i) (simp_all add: p)
      qed
      with none res show ?thesis by simp
    next
      assume "\<exists>i<length m. time (snd (m ! i)) < clock (Suc n + i) \<and>
        (\<forall>j<i. \<not> time (snd (m ! j)) < clock (Suc n + j)) \<and>
        cb1 = callback (snd (m ! i)) \<and> m1 = take i m @ drop (Suc i) m"
      then obtain i where i: "i < length m" "time (snd (m ! i)) < clock (Suc n + i)"
        "\<forall>j<i. \<not> time (snd (m ! j)) < clock (Suc n + j)"
        "cb1 = callback (snd (m ! i))" "m1 = take i m @ drop (Suc i) m"
        by blast
      have before: "\<forall>j<Suc i. \<not> time (snd ((p # m) ! j)) < clock (n + j)"
      proof (intro allI impI)
        fix j assume "j < Suc i"
        then show "\<not> time (snd ((p # m) ! j)) < clock (n + j)"
          using i(3) False by (cases j) (simp_all add: p)
      qed
      have "Suc i < length (p # m) \<and> time (snd ((p # m) ! Suc i)) < clock (n + Suc i) \<and>
          cb = callback (snd ((p # m) ! Suc i)) \<and>
          m' = take (Suc i) (p # m) @ drop (Suc (Suc i)) (p # m)"
        using i res by simp
      with before show ?thesis by blast
    qed
  qed
qed

lemma map_of_without_index:
  fixes m :: timeout_handler_map
  shows "sorted_wrt (<) (map fst m) \<Longrightarrow> i < length m \<Longrightarrow>
     map_of (take i m @ drop (Suc i) m) (fst (m ! i)) = None"
proof (induction m arbitrary: i)
  case Nil
  then show ?case by simp
next
  case (Cons p m)
  obtain k v where p: "p = (k, v)" by (cases p)
  from Cons.prems have tl: "sorted_wrt (<) (map fst m)" and hd: "\<forall>x\<in>set m. k < fst x"
    by (simp_all add: p)
  show ?case
  proof (cases i)
    case 0
    then show ?thesis using map_of_not_above [OF hd, of k] by (simp add: p)
  next
    case (Suc i')
    with Cons.prems have i': "i' < length m" by simp
    then have "k < fst (m ! i')" using hd by simp
    then show ?thesis
      using Cons.IH [OF tl i'] by (simp add: Suc p)
  qed
qed

lemma sorted_without_index:
  fixes m :: timeout_handler_map
  shows "sorted_wrt (<) (map fst m) \<Longrightarrow> sorted_wrt (<) (map fst (take i m @ drop (Suc i) m))"
proof (induction m arbitrary: i)
  case Nil
  then show ?case by simp
next
  case (Cons p m)
  from Cons.prems have tl: "sorted_wrt (<) (map fst m)" and hd: "\<forall>x\<in>set m. fst p < fst x"
    by simp_all
  show ?case
  proof (cases i)
    case 0
    then show ?thesis using tl by simp
  next
    case (Suc i')
    have "\<forall>x\<in>fst ` set (take i' m) \<union> fst ` set (drop (Suc i') m). fst p < x"
      using hd by (auto dest: in_set_takeD in_set_dropD)
    then show ?thesis
      using Cons.IH [OF tl, of i'] by (simp add: Suc)
  qed
qed

lemma register_timeout_handler_map:
  "timeout_handler_map (register_timeout_handler s now cb c) =
     map_insert c \<lparr>time = now + int (timeout_us s), callback = cb\<rparr> (timeout_handler_map s)"
  by (simp add: register_timeout_handler_def steady_time_in_future_def Let_def)

lemma update_timeout_handler_map:
  "timeout_handler_map (update_timeout_handler s now c) =
     map_set_time c (now + int (timeout_us s)) (timeout_handler_map s)"
proof (cases "map_of (timeout_handler_map s) c")
  case None
  have "map_set_time c t m = m" if "map_of m c = None" for t and m :: timeout_handler_map
    using that by (induction m) (auto split: if_splits)
  with None show ?thesis by (simp add: update_timeout_handler_def)
next
  case (Some e)
  then show ?thesis
    by (simp add: update_timeout_handler_def steady_time_in_future_def Let_def)
qed

lemma once_registered_device_fields:
  "timeout_handler_map once_registered_device = [(7, \<lparr>time = 5000, callback = Some 1\<rparr>)]"
  "timeout_us once_registered_device = 5000"
  by (simp_all add: once_registered_device_def register_timeout_handler_def
      steady_time_in_future_def fresh_device_def DeviceImpl_new_def Let_def)

subsection \<open>Registering and refreshing\<close>

text \<open>
  C4, as the code has it. The registry holds at most one entry per owner token: its keys
  stay strictly increasing under \<open>register_timeout_handler\<close> and \<open>update_timeout_handler\<close>.
  Registering an owner that already has a pending entry changes nothing: the entry keeps
  its deadline and its callback. Registering an owner that has none adds the entry with
  the deadline \<open>now + timeout\<close> and the given callback. Refreshing a registered owner sets
  its deadline to \<open>now + timeout\<close>, keeps its callback and adds no entry; refreshing an
  owner that is not registered changes nothing.
\<close>

theorem registration_keeps_pending_entry:
  assumes "sorted_wrt (<) (map fst (timeout_handler_map s))"
  shows "sorted_wrt (<) (map fst (timeout_handler_map (register_timeout_handler s now cb c))) \<and>
         sorted_wrt (<) (map fst (timeout_handler_map (update_timeout_handler s now c))) \<and>
         (map_of (timeout_handler_map s) c \<noteq> None \<longrightarrow>
            register_timeout_handler s now cb c = s) \<and>
         (map_of (timeout_handler_map s) c = None \<longrightarrow>
            map_of (timeout_handler_map (register_timeout_handler s now cb c)) =
              (map_of (timeout_handler_map s))
                (c \<mapsto> \<lparr>time = now + int (timeout_us s), callback = cb\<rparr>)) \<and>
         map fst (timeout_handler_map (update_timeout_handler s now c)) =
           map fst (timeout_handler_map s) \<and>
         map_of (timeout_handler_map (update_timeout_handler s now c)) =
           (case map_of (timeout_handler_map s) c of
              None \<Rightarrow> map_of (timeout_handler_map s)
            | Some e \<Rightarrow> (map_of (timeout_handler_map s))
                          (c \<mapsto> e\<lparr>time := now + int (timeout_us s)\<rparr>))"
proof (intro conjI impI)
  show "sorted_wrt (<) (map fst (timeout_handler_map (register_timeout_handler s now cb c)))"
    using assms by (simp add: register_timeout_handler_map sorted_map_insert)
  show "sorted_wrt (<) (map fst (timeout_handler_map (update_timeout_handler s now c)))"
    using assms by (simp add: update_timeout_handler_map keys_map_set_time)
  show "register_timeout_handler s now cb c = s"
    if "map_of (timeout_handler_map s) c \<noteq> None"
    using map_insert_present [OF assms that]
    by (simp add: register_timeout_handler_def Let_def)
  show "map_of (timeout_handler_map (register_timeout_handler s now cb c)) =
      (map_of (timeout_handler_map s))(c \<mapsto> \<lparr>time = now + int (timeout_us s), callback = cb\<rparr>)"
    if "map_of (timeout_handler_map s) c = None"
    using that by (simp add: register_timeout_handler_map map_insert_absent)
  show "map fst (timeout_handler_map (update_timeout_handler s now c)) =
      map fst (timeout_handler_map s)"
    by (simp add: update_timeout_handler_map keys_map_set_time)
  show "map_of (timeout_handler_map (update_timeout_handler s now c)) =
      (case map_of (timeout_handler_map s) c of
         None \<Rightarrow> map_of (timeout_handler_map s)
       | Some e \<Rightarrow> (map_of (timeout_handler_map s))(c \<mapsto> e\<lparr>time := now + int (timeout_us s)\<rparr>))"
    by (simp add: update_timeout_handler_map map_of_map_set_time)
qed

theorem registration_keeps_pending_entry_witness:
  "sorted_wrt (<) (map fst (timeout_handler_map once_registered_device)) \<and>
   map_of (timeout_handler_map once_registered_device) 7 = Some \<lparr>time = 5000, callback = Some 1\<rparr> \<and>
   map_of (timeout_handler_map once_registered_device) 8 = None \<and>
   register_timeout_handler once_registered_device 1000 (Some 2) 7 = once_registered_device \<and>
   map_of (timeout_handler_map (register_timeout_handler once_registered_device 1000 (Some 2) 8)) 8 =
     Some \<lparr>time = 6000, callback = Some 2\<rparr> \<and>
   map_of (timeout_handler_map (update_timeout_handler once_registered_device 1000 7)) 7 =
     Some \<lparr>time = 6000, callback = Some 1\<rparr> \<and>
   map fst (timeout_handler_map (update_timeout_handler once_registered_device 1000 7)) = [7]"
proof -
  have keys: "sorted_wrt (<) (map fst (timeout_handler_map once_registered_device))"
    by (simp add: once_registered_device_fields)
  show ?thesis
    using keys registration_keeps_pending_entry [OF keys, of 1000 "Some 2" 7]
      registration_keeps_pending_entry [OF keys, of 1000 "Some 2" 8]
    by (simp add: once_registered_device_fields)
qed

text \<open>
  C4 as stated fails: owner 7 is registered at time 0 with a timeout of 5000, so with the
  deadline 5000. Registering owner 7 again at time 1000 would give the deadline 6000, but
  the entry still has the deadline 5000 (and the first callback).
\<close>

theorem second_registration_keeps_old_deadline:
  "timeout_handler_map (register_timeout_handler once_registered_device 1000 (Some 2) 7) =
     [(7, \<lparr>time = 5000, callback = Some 1\<rparr>)] \<and>
   steady_time_in_future 1000 (timeout_us once_registered_device) = 6000"
  by (simp add: register_timeout_handler_def steady_time_in_future_def
      once_registered_device_fields Let_def)

subsection \<open>Polling and cancelling\<close>

lemma check_timeouts_outcome:
  assumes "sorted_wrt (<) (map fst (timeout_handler_map s))"
  shows "((\<forall>i<length (timeout_handler_map s). \<not> deadline_passed clock (timeout_handler_map s) i) \<and>
          check_timeouts s clock = s) \<or>
         (\<exists>i<length (timeout_handler_map s).
            deadline_passed clock (timeout_handler_map s) i \<and>
            (\<forall>j<i. \<not> deadline_passed clock (timeout_handler_map s) j) \<and>
            timeout_handler_map (check_timeouts s clock) =
              take i (timeout_handler_map s) @ drop (Suc i) (timeout_handler_map s) \<and>
            trace (check_timeouts s clock) =
              trace s @ (case callback (snd (timeout_handler_map s ! i)) of
                           None \<Rightarrow> [] | Some f \<Rightarrow> [Timeout_fired f]) \<and>
            map_of (timeout_handler_map (check_timeouts s clock))
              (fst (timeout_handler_map s ! i)) = None)"
proof -
  let ?m = "timeout_handler_map s"
  obtain cb m' where sc: "scan_timeouts clock 0 ?m = (cb, m')"
    by (cases "scan_timeouts clock 0 ?m")
  have res: "timeout_handler_map (check_timeouts s clock) = m'"
    "trace (check_timeouts s clock) = trace s @ (case cb of None \<Rightarrow> [] | Some f \<Rightarrow> [Timeout_fired f])"
    using sc by (simp_all add: check_timeouts_def Let_def split: option.splits)
  from scan_timeouts_outcome [OF sc] show ?thesis
  proof
    assume none: "cb = None \<and> m' = ?m \<and> (\<forall>i<length ?m. \<not> time (snd (?m ! i)) < clock (0 + i))"
    then have "check_timeouts s clock = s"
      using sc by (simp add: check_timeouts_def)
    with none show ?thesis by (simp add: deadline_passed_def)
  next
    assume "\<exists>i<length ?m. time (snd (?m ! i)) < clock (0 + i) \<and>
        (\<forall>j<i. \<not> time (snd (?m ! j)) < clock (0 + j)) \<and>
        cb = callback (snd (?m ! i)) \<and> m' = take i ?m @ drop (Suc i) ?m"
    then obtain i where i: "i < length ?m" "time (snd (?m ! i)) < clock i"
      "\<forall>j<i. \<not> time (snd (?m ! j)) < clock j"
      "cb = callback (snd (?m ! i))" "m' = take i ?m @ drop (Suc i) ?m"
      by auto
    have gone: "map_of m' (fst (?m ! i)) = None"
      using map_of_without_index [OF assms i(1)] i(5) by simp
    have "i < length ?m \<and> deadline_passed clock ?m i \<and> (\<forall>j<i. \<not> deadline_passed clock ?m j) \<and>
        timeout_handler_map (check_timeouts s clock) = take i ?m @ drop (Suc i) ?m \<and>
        trace (check_timeouts s clock) =
          trace s @ (case callback (snd (?m ! i)) of None \<Rightarrow> [] | Some f \<Rightarrow> [Timeout_fired f]) \<and>
        map_of (timeout_handler_map (check_timeouts s clock)) (fst (?m ! i)) = None"
      using i gone res by (simp add: deadline_passed_def)
    then show ?thesis by blast
  qed
qed

lemma check_timeouts_keeps_keys_sorted:
  assumes "sorted_wrt (<) (map fst (timeout_handler_map s))"
  shows "sorted_wrt (<) (map fst (timeout_handler_map (check_timeouts s clock)))"
proof -
  from check_timeouts_outcome [OF assms, of clock] show ?thesis
  proof
    assume "(\<forall>i<length (timeout_handler_map s). \<not> deadline_passed clock (timeout_handler_map s) i) \<and>
        check_timeouts s clock = s"
    with assms show ?thesis by simp
  next
    assume "\<exists>i<length (timeout_handler_map s).
        deadline_passed clock (timeout_handler_map s) i \<and>
        (\<forall>j<i. \<not> deadline_passed clock (timeout_handler_map s) j) \<and>
        timeout_handler_map (check_timeouts s clock) =
          take i (timeout_handler_map s) @ drop (Suc i) (timeout_handler_map s) \<and>
        trace (check_timeouts s clock) =
          trace s @ (case callback (snd (timeout_handler_map s ! i)) of
                       None \<Rightarrow> [] | Some f \<Rightarrow> [Timeout_fired f]) \<and>
        map_of (timeout_handler_map (check_timeouts s clock))
          (fst (timeout_handler_map s ! i)) = None"
    then obtain i where "timeout_handler_map (check_timeouts s clock) =
        take i (timeout_handler_map s) @ drop (Suc i) (timeout_handler_map s)"
      by blast
    then show ?thesis
      using sorted_without_index [OF assms, of i] by simp
  qed
qed

lemma unregister_timeout_handler_map:
  assumes "sorted_wrt (<) (map fst (timeout_handler_map s))"
  shows "map_of (timeout_handler_map (unregister_timeout_handler s c)) =
           (map_of (timeout_handler_map s))(c := None)"
    and "sorted_wrt (<) (map fst (timeout_handler_map (unregister_timeout_handler s c)))"
  using assms
  by (auto simp: unregister_timeout_handler_def map_of_map_erase sorted_map_erase fun_eq_iff
      split: option.splits)

lemma no_key_at_index:
  "map_of m c = None \<Longrightarrow> i < length m \<Longrightarrow> fst (m ! i) \<noteq> c"
  by (metis map_of_eq_None_iff nth_mem image_eqI)

lemma registry_device_map:
  "timeout_handler_map registry_device =
     [(3, \<lparr>time = 5100, callback = Some 30\<rparr>), (5, \<lparr>time = 5050, callback = Some 50\<rparr>),
      (9, \<lparr>time = 5060, callback = Some 90\<rparr>)]"
  "trace registry_device = []"
  by (simp_all add: registry_device_def register_timeout_handler_def steady_time_in_future_def
      fresh_device_def DeviceImpl_new_def Let_def)

lemma registry_device_poll:
  "timeout_handler_map (check_timeouts registry_device (\<lambda>i. 5070)) =
     [(3, \<lparr>time = 5100, callback = Some 30\<rparr>), (9, \<lparr>time = 5060, callback = Some 90\<rparr>)]"
  "trace (check_timeouts registry_device (\<lambda>i. 5070)) = [Timeout_fired 50]"
  "timeout_handler_map (unregister_timeout_handler registry_device 5) =
     [(3, \<lparr>time = 5100, callback = Some 30\<rparr>), (9, \<lparr>time = 5060, callback = Some 90\<rparr>)]"
  "trace (check_timeouts (unregister_timeout_handler registry_device 5) (\<lambda>i. 5070)) =
     [Timeout_fired 90]"
  by (simp_all add: check_timeouts_def unregister_timeout_handler_def registry_device_map Let_def)

text \<open>
  C8. One call of \<open>check_timeouts\<close> on a registry with unique keys either finds no entry
  whose deadline has passed and changes nothing, or erases exactly one entry, the first in
  iteration order whose deadline has passed, and calls the callback of that entry (if it
  is not empty) and no other; entries further on whose deadlines have passed too stay in
  the registry. The owner of the erased entry has no entry afterwards, so its deadline
  cannot fire a second time. After \<open>unregister_timeout_handler\<close> for an owner the registry
  has no entry of that owner (the other entries are as before, the keys still unique), so
  a later poll, which erases and fires entries of the registry only, cannot fire it.
\<close>

theorem poll_fires_first_passed_deadline_only:
  assumes "sorted_wrt (<) (map fst (timeout_handler_map s))"
  shows "(((\<forall>i<length (timeout_handler_map s). \<not> deadline_passed clock (timeout_handler_map s) i) \<and>
          check_timeouts s clock = s) \<or>
         (\<exists>i<length (timeout_handler_map s).
            deadline_passed clock (timeout_handler_map s) i \<and>
            (\<forall>j<i. \<not> deadline_passed clock (timeout_handler_map s) j) \<and>
            timeout_handler_map (check_timeouts s clock) =
              take i (timeout_handler_map s) @ drop (Suc i) (timeout_handler_map s) \<and>
            trace (check_timeouts s clock) =
              trace s @ (case callback (snd (timeout_handler_map s ! i)) of
                           None \<Rightarrow> [] | Some f \<Rightarrow> [Timeout_fired f]) \<and>
            map_of (timeout_handler_map (check_timeouts s clock))
              (fst (timeout_handler_map s ! i)) = None)) \<and>
         sorted_wrt (<) (map fst (timeout_handler_map (unregister_timeout_handler s c))) \<and>
         map_of (timeout_handler_map (unregister_timeout_handler s c)) =
           (map_of (timeout_handler_map s))(c := None) \<and>
         (\<forall>i<length (timeout_handler_map (unregister_timeout_handler s c)).
            fst (timeout_handler_map (unregister_timeout_handler s c) ! i) \<noteq> c)"
proof -
  have "map_of (timeout_handler_map (unregister_timeout_handler s c)) c = None"
    using unregister_timeout_handler_map(1) [OF assms, of c] by simp
  then have "\<forall>i<length (timeout_handler_map (unregister_timeout_handler s c)).
      fst (timeout_handler_map (unregister_timeout_handler s c) ! i) \<noteq> c"
    by (simp add: no_key_at_index)
  then show ?thesis
    by (intro conjI check_timeouts_outcome [OF assms, of clock]
        unregister_timeout_handler_map [OF assms, of c])
qed

theorem poll_fires_first_passed_deadline_only_witness:
  "sorted_wrt (<) (map fst (timeout_handler_map registry_device)) \<and>
   deadline_passed (\<lambda>i. 5070) (timeout_handler_map registry_device) 1 \<and>
   deadline_passed (\<lambda>i. 5070) (timeout_handler_map registry_device) 2 \<and>
   timeout_handler_map (check_timeouts registry_device (\<lambda>i. 5070)) =
     [(3, \<lparr>time = 5100, callback = Some 30\<rparr>), (9, \<lparr>time = 5060, callback = Some 90\<rparr>)] \<and>
   trace (check_timeouts registry_device (\<lambda>i. 5070)) = [Timeout_fired 50] \<and>
   map_of (timeout_handler_map (check_timeouts registry_device (\<lambda>i. 5070))) 5 = None \<and>
   map_of (timeout_handler_map (unregister_timeout_handler registry_device 5)) 5 = None \<and>
   trace (check_timeouts (unregister_timeout_handler registry_device 5) (\<lambda>i. 5070)) =
     [Timeout_fired 90]"
proof -
  have keys: "sorted_wrt (<) (map fst (timeout_handler_map registry_device))"
    by (simp add: registry_device_map)
  have passed: "deadline_passed (\<lambda>i. 5070) (timeout_handler_map registry_device) 1"
    "deadline_passed (\<lambda>i. 5070) (timeout_handler_map registry_device) 2"
    by (simp_all add: deadline_passed_def registry_device_map)
  have cancelled: "map_of (timeout_handler_map (unregister_timeout_handler registry_device 5)) 5 = None"
    using poll_fires_first_passed_deadline_only [OF keys, of "\<lambda>i. 5070" 5,
        THEN conjunct2, THEN conjunct2, THEN conjunct1]
    by simp
  show ?thesis
    using keys passed cancelled by (simp add: registry_device_poll)
qed

end
